theory Spec2Isabelle
  imports Complex_Main "HOL-Library.Multiset" "HOL-Library.Word"
begin

section \<open>Pixel-stack combination with outlier rejection\<close>

text \<open>
  The header \<^verbatim>\<open>reject_methods.h\<close> defines three rejection strategies, each a
  class template over a central-tendency functor, and an adaptor that hides a
  strategy behind the virtual interface \<open>RejectMethod\<close>. Every \<open>combine\<close>
  receives two iterators delimiting the values, an iterator to the weights and
  three result slots.

  Conventions of the embedding:
  \<^item> a \<open>double\<close> is a \<open>real\<close>: rounding, infinities and NaN are outside the model
    (in particular \<open>sqrt\<close> is the real square root);
  \<^item> the caller's two sequences are one list of (value, weight) pairs, the view
    that the zip iterators of the source give of them: position \<open>i\<close> of the list
    is \<open>(begin[i], weights[i])\<close>, and \<open>end - begin\<close> is the length of the list;
  \<^item> \<open>combine\<close> returns \<open>void\<close> and works through pointers, so the model returns
    what the caller can observe afterwards: the sequences and the three slots;
  \<^item> the central-tendency functor is a parameter: a function from the values and
    the weights of a range to a pair.
\<close>

text \<open>
  Modelled from the spec: the element that a \<open>ZipIterator\<close> points to
  (zip_iterator.h is not part of the sources at hand). The specification's
  sample is a pair of a value and its weight, and the source reads the value
  with \<open>select1st\<close>; moving an element moves both components.
\<close>

type_synonym sample = "real \<times> real"

type_synonym central_tendency = "real list \<Rightarrow> real list \<Rightarrow> real \<times> real"

text \<open>The three slots \<open>*results[0]\<close>, \<open>*results[1]\<close>, \<open>*results[2]\<close>, all of type \<open>Result\<close>.\<close>

record results =
  center :: real
  dispersion :: real
  countUsed :: real

text \<open>
  \<open>m_central(b, e, w)\<close> on the sub-range \<open>[i, j)\<close> of the sequences: the functor
  sees the values of the range and the weights at the same positions.
\<close>

definition m_central_on :: "central_tendency \<Rightarrow> sample list \<Rightarrow> nat \<Rightarrow> nat \<Rightarrow> real \<times> real" where
  "m_central_on m_central zs i j =
     m_central (map fst (take (j - i) (drop i zs))) (map snd (take (j - i) (drop i zs)))"

subsection \<open>Function objects of the standard library used by the source\<close>

definition select1st :: "'a \<times> 'b \<Rightarrow> 'a" where
  "select1st p = fst p"

definition less_double :: "real \<Rightarrow> real \<Rightarrow> bool" where
  "less_double x y = (x < y)"

definition greater_double :: "real \<Rightarrow> real \<Rightarrow> bool" where
  "greater_double x y = (x > y)"

definition logical_and :: "bool \<Rightarrow> bool \<Rightarrow> bool" where
  "logical_and a b = (a \<and> b)"

definition bind1st :: "('a \<Rightarrow> 'b \<Rightarrow> 'c) \<Rightarrow> 'a \<Rightarrow> 'b \<Rightarrow> 'c" where
  "bind1st f a x = f a x"

definition bind2nd :: "('a \<Rightarrow> 'b \<Rightarrow> 'c) \<Rightarrow> 'b \<Rightarrow> 'a \<Rightarrow> 'c" where
  "bind2nd f b x = f x b"

definition compose1 :: "('b \<Rightarrow> 'c) \<Rightarrow> ('a \<Rightarrow> 'b) \<Rightarrow> 'a \<Rightarrow> 'c" where
  "compose1 f g x = f (g x)"

definition compose2 :: "('b \<Rightarrow> 'c \<Rightarrow> 'd) \<Rightarrow> ('a \<Rightarrow> 'b) \<Rightarrow> ('a \<Rightarrow> 'c) \<Rightarrow> 'a \<Rightarrow> 'd" where
  "compose2 h f g x = h (f x) (g x)"

text \<open>
  \<open>std::partition(first, last, pred)\<close> on the range \<open>[beg, beg + m)\<close> of the
  sequences: the elements that satisfy \<open>pred\<close> are moved in front of those that
  do not, whole pairs at a time, and the position of the first element of the
  second group is returned. The standard leaves the order inside each group
  open; the model keeps the order of the input in both groups. The rest of the
  sequences, from \<open>beg + m\<close> on, is not touched. The properties below use of
  this order only that a range whose elements all satisfy \<open>pred\<close> is left as
  it is. In the examples either a suffix of the range is rejected, which no
  implementation has a reason to move, or the samples of a group are equal, so
  that their order cannot be seen.
\<close>

definition partition_range :: "(sample \<Rightarrow> bool) \<Rightarrow> sample list \<Rightarrow> nat \<Rightarrow> sample list \<times> nat" where
  "partition_range pred zs m =
     (filter pred (take m zs) @ filter (\<lambda>z. \<not> pred z) (take m zs) @ drop m zs,
      length (filter pred (take m zs)))"

subsection \<open>RejectNone\<close>

definition RejectNone_combine :: "central_tendency \<Rightarrow> sample list \<Rightarrow> sample list \<times> results" where
  "RejectNone_combine m_central zs =
     (let r = m_central_on m_central zs 0 (length zs)
      in (zs, \<lparr>center = fst r, dispersion = snd r, countUsed = real (length zs)\<rparr>))"

subsection \<open>RejectSigmaClip\<close>

text \<open>
  The predicate handed to \<open>partition\<close>, built as the source builds it:
  \<open>compose2(logical_and, compose1(bind2nd(less, c_mean - c_std * m_low), select1st),
  compose1(bind1st(greater, c_mean + c_std * m_high), select1st))\<close>.
\<close>

definition clip_pred :: "real \<Rightarrow> real \<Rightarrow> real \<Rightarrow> real \<Rightarrow> sample \<Rightarrow> bool" where
  "clip_pred c_mean c_std m_low m_high =
     compose2 logical_and
       (compose1 (bind2nd less_double (c_mean - c_std * m_low)) select1st)
       (compose1 (bind1st greater_double (c_mean + c_std * m_high)) select1st)"

text \<open>
  The local variables of \<open>combine\<close>. \<open>ned\<close> is kept as the offset \<open>ned - beg\<close>;
  \<open>beg\<close>, \<open>begin\<close> and \<open>end\<close> never change. \<open>delta\<close> is an \<open>int\<close>: the
  difference of the two sizes is converted to 32 bits.
\<close>

record clip_state =
  seqs :: "sample list"
  ned :: nat
  delta :: "32 word"
  c_mean :: real
  c_std :: real
  c_size :: nat

text \<open>One pass through the body of the \<open>do ... while (delta)\<close> loop.\<close>

definition clip_body :: "central_tendency \<Rightarrow> real \<Rightarrow> real \<Rightarrow> clip_state \<Rightarrow> clip_state" where
  "clip_body m_central m_low m_high st =
     (let r = m_central_on m_central (seqs st) 0 (c_size st);
          mean = fst r;
          std = sqrt (snd r);
          (zs', ned') = partition_range (clip_pred mean std m_low m_high) (seqs st) (ned st)
      in \<lparr>seqs = zs', ned = ned',
          delta = of_nat (c_size st) - of_nat ned',
          c_mean = mean, c_std = std,
          c_size = length (seqs st)\<rparr>)"

text \<open>The loop: the body runs, then \<open>delta\<close> decides. It may run forever, which is \<open>None\<close>.\<close>

partial_function (option) clip_loop ::
  "central_tendency \<Rightarrow> real \<Rightarrow> real \<Rightarrow> clip_state \<Rightarrow> clip_state option" where
  "clip_loop m_central m_low m_high st =
     (let st' = clip_body m_central m_low m_high st
      in if delta st' \<noteq> 0 then clip_loop m_central m_low m_high st' else Some st')"

definition clip_init :: "sample list \<Rightarrow> clip_state" where
  "clip_init zs = \<lparr>seqs = zs, ned = length zs, delta = 0, c_mean = 0, c_std = 0, c_size = length zs\<rparr>"

text \<open>The state in which the loop is left, if it is left.\<close>

definition RejectSigmaClip_run ::
  "central_tendency \<Rightarrow> real \<Rightarrow> real \<Rightarrow> sample list \<Rightarrow> clip_state option" where
  "RejectSigmaClip_run m_central m_low m_high zs = clip_loop m_central m_low m_high (clip_init zs)"

definition RejectSigmaClip_combine ::
  "central_tendency \<Rightarrow> real \<Rightarrow> real \<Rightarrow> sample list \<Rightarrow> (sample list \<times> results) option" where
  "RejectSigmaClip_combine m_central m_low m_high zs =
     map_option
       (\<lambda>st. (seqs st, \<lparr>center = c_mean st, dispersion = c_std st, countUsed = real (c_size st)\<rparr>))
       (RejectSigmaClip_run m_central m_low m_high zs)"

text \<open>
  The state after \<open>k\<close> passes through the body, whether or not the loop has been
  left by then; and the kept set of a state, the range \<open>[beg, ned)\<close>.
\<close>

definition clip_iter :: "central_tendency \<Rightarrow> real \<Rightarrow> real \<Rightarrow> sample list \<Rightarrow> nat \<Rightarrow> clip_state" where
  "clip_iter m_central m_low m_high zs k = (clip_body m_central m_low m_high ^^ k) (clip_init zs)"

definition kept :: "clip_state \<Rightarrow> sample list" where
  "kept st = take (ned st) (seqs st)"

text \<open>
  A state at the top of the loop in which a sample has already been rejected:
  \<open>c_size\<close> is the full length again and \<open>ned\<close> is short of it.
\<close>

definition clip_stuck :: "clip_state \<Rightarrow> bool" where
  "clip_stuck st \<longleftrightarrow>
     c_size st = length (seqs st) \<and> ned st < length (seqs st) \<and> length (seqs st) < 2 ^ 32"

subsection \<open>RejectMinMax\<close>

text \<open>
  Modelled from the spec: \<open>compose\<close> of functional.h, which is not part of the
  sources at hand. The comment at its call says what the composed object does:
  it compares two pairs by their first components.
\<close>

definition compose :: "('b \<Rightarrow> 'c \<Rightarrow> 'd) \<Rightarrow> ('a \<Rightarrow> 'b) \<Rightarrow> ('e \<Rightarrow> 'c) \<Rightarrow> 'a \<Rightarrow> 'e \<Rightarrow> 'd" where
  "compose h f g x y = h (f x) (g y)"

text \<open>
  Modelled from the spec: the selection step of \<open>reject_min_max\<close>, an
  order-preserving selection of the smallest elements. \<open>least_by\<close> is the first
  element that no other element is below; \<open>take_least\<close> removes such an element
  \<open>k\<close> times, or until nothing is left, and keeps the others in their order.
\<close>

fun least_by :: "('a \<Rightarrow> 'a \<Rightarrow> bool) \<Rightarrow> 'a \<Rightarrow> 'a list \<Rightarrow> 'a" where
  "least_by cmp m [] = m"
| "least_by cmp m (x # xs) = least_by cmp (if cmp x m then x else m) xs"

fun take_least :: "('a \<Rightarrow> 'a \<Rightarrow> bool) \<Rightarrow> nat \<Rightarrow> 'a list \<Rightarrow> 'a list \<times> 'a list" where
  "take_least cmp 0 zs = ([], zs)"
| "take_least cmp (Suc k) [] = ([], [])"
| "take_least cmp (Suc k) (z # zs) =
     (let m = least_by cmp z zs;
          (ls, rest) = take_least cmp k (remove1 m (z # zs))
      in (m # ls, rest))"

text \<open>
  Modelled from the spec: \<open>reject_min_max\<close> of operations.h, which is not part of
  the sources at hand. The spec asks for an order-preserving selection that
  separates exactly the \<open>nmin\<close> smallest and the \<open>nmax\<close> largest elements from
  the rest without sorting the rest, and that discards until the set is
  exhausted when there are too few elements. The call in \<open>combine\<close> fixes the
  interface: the selection works in place on the zipped range, with the
  comparison it is given, and returns the two iterators that delimit the
  remainder. The smallest elements are put in front and the largest at the
  back; the largest are selected with the comparison turned round.
\<close>

definition reject_min_max ::
  "('a \<Rightarrow> 'a \<Rightarrow> bool) \<Rightarrow> nat \<Rightarrow> nat \<Rightarrow> 'a list \<Rightarrow> 'a list \<times> nat \<times> nat" where
  "reject_min_max cmp nmin nmax zs =
     (let (lows, rest) = take_least cmp nmin zs;
          (highs, mid) = take_least (\<lambda>x y. cmp y x) nmax rest
      in (lows @ mid @ rev highs, length lows, length lows + length mid))"

definition RejectMinMax_combine ::
  "central_tendency \<Rightarrow> nat \<Rightarrow> nat \<Rightarrow> sample list \<Rightarrow> sample list \<times> results" where
  "RejectMinMax_combine m_central m_nmin m_nmax zs =
     (let (zs', first, second) =
            reject_min_max (compose less_double select1st select1st) m_nmin m_nmax zs;
          r = m_central_on m_central zs' first second
      in (zs', \<lparr>center = fst r, dispersion = snd r, countUsed = real (second - first)\<rparr>))"

text \<open>
  What \<open>RejectMinMax::combine\<close> leaves out of the estimate: the samples in front
  of the first returned iterator and those from the second one on.
\<close>

definition minmax_low :: "nat \<Rightarrow> nat \<Rightarrow> sample list \<Rightarrow> sample list" where
  "minmax_low nmin nmax zs =
     (let (zs', first, second) =
            reject_min_max (compose less_double select1st select1st) nmin nmax zs
      in take first zs')"

definition minmax_high :: "nat \<Rightarrow> nat \<Rightarrow> sample list \<Rightarrow> sample list" where
  "minmax_high nmin nmax zs =
     (let (zs', first, second) =
            reject_min_max (compose less_double select1st select1st) nmin nmax zs
      in drop second zs')"

definition minmax_kept :: "nat \<Rightarrow> nat \<Rightarrow> sample list \<Rightarrow> sample list" where
  "minmax_kept nmin nmax zs =
     (let (zs', first, second) =
            reject_min_max (compose less_double select1st select1st) nmin nmax zs
      in take (second - first) (drop first zs'))"

subsection \<open>RejectMethodAdaptor\<close>

text \<open>
  The adaptor stores a copy \<open>m_rn\<close> of a strategy object of any type \<open>MRNT\<close> and
  its virtual \<open>combine\<close> calls \<open>m_rn.combine\<close> with its own arguments. The
  strategy object is its \<open>combine\<close>, a function of the sequences.
\<close>

definition RejectMethodAdaptor_combine :: "(sample list \<Rightarrow> 'o) \<Rightarrow> sample list \<Rightarrow> 'o" where
  "RejectMethodAdaptor_combine m_rn zs = m_rn zs"

subsection \<open>A central-tendency functor for the examples\<close>

text \<open>
  The estimators live outside this header. The examples below use the
  arithmetic mean with the sample variance (divisor \<open>n - 1\<close>); the weights are
  not used. On fewer than two values the dispersion is taken to be 0.
\<close>

definition mean_central :: central_tendency where
  "mean_central vs ws =
     (if vs = [] then (0, 0)
      else let n = real (length vs); m = sum_list vs / n
           in (m, if length vs < 2 then 0 else sum_list (map (\<lambda>v. (v - m)\<^sup>2) vs) / (n - 1)))"

section \<open>Properties\<close>

subsection \<open>The partition step\<close>


lemma length_partition_range:
  "length (fst (partition_range p zs m)) = length zs"
proof -
  have "length (filter p (take m zs)) + length (filter (\<lambda>z. \<not> p z) (take m zs)) = length (take m zs)"
    by (rule sum_length_filter_compl)
  then show ?thesis by (simp add: partition_range_def) 
qed

lemma snd_partition_range_le:
  "snd (partition_range p zs m) \<le> min m (length zs)"
proof -
  have "length (filter p (take m zs)) \<le> length (take m zs)"
    by (rule length_filter_le)
  then show ?thesis by (simp add: partition_range_def)
qed

lemma mset_partition_range:
  "mset (fst (partition_range p zs m)) = mset zs"
proof -
  have "mset (filter p (take m zs)) + mset (filter (\<lambda>z. \<not> p z) (take m zs)) = mset (take m zs)"
    by simp
  then have "mset (fst (partition_range p zs m)) = mset (take m zs) + mset (drop m zs)"
    by (simp add: partition_range_def)
  also have "\<dots> = mset (take m zs @ drop m zs)" by (simp only: mset_append)
  finally show ?thesis by simp
qed

lemma partition_range_all:
  assumes "\<forall>z \<in> set (take m zs). p z"
  shows "partition_range p zs m = (zs, min m (length zs))"
proof -
  have "filter p (take m zs) = take m zs" using assms by simp
  moreover have "filter (\<lambda>z. \<not> p z) (take m zs) = []" using assms by simp
  ultimately show ?thesis by (simp add: partition_range_def)
qed

lemma length_filter_full_iff:
  "length (filter p zs) = length zs \<longleftrightarrow> (\<forall>z \<in> set zs. p z)"
proof
  assume eq: "length (filter p zs) = length zs"
  show "\<forall>z \<in> set zs. p z"
  proof (rule ccontr)
    assume "\<not> (\<forall>z \<in> set zs. p z)"
    then obtain z where "z \<in> set zs" and "\<not> p z" by blast
    then have "length (filter p zs) < length zs" by (rule length_filter_less)
    with eq show False by simp
  qed
next
  assume "\<forall>z \<in> set zs. p z"
  then have "filter p zs = zs" by simp
  then show "length (filter p zs) = length zs" by simp
qed

lemma partition_range_full_iff:
  "snd (partition_range p zs (length zs)) = length zs \<longleftrightarrow> (\<forall>z \<in> set zs. p z)"
  by (simp add: partition_range_def length_filter_full_iff)

lemma delta_zero_iff:
  assumes "k \<le> n" "n < 2 ^ 32"
  shows "(of_nat n - of_nat k = (0::32 word)) \<longleftrightarrow> k = n"
proof -
  have "(of_nat n - of_nat k :: 32 word) = of_nat (n - k)"
    using assms(1) by simp
  moreover have "(of_nat (n - k) = (0::32 word)) \<longleftrightarrow> n - k = 0"
  proof
    assume z: "of_nat (n - k) = (0::32 word)"
    show "n - k = 0"
    proof (rule ccontr)
      assume "n - k \<noteq> 0"
      then have "0 < n - k" by simp
      moreover have "n - k < 2 ^ LENGTH(32)" using assms(2) by simp
      ultimately have "(of_nat (n - k) :: 32 word) \<noteq> 0" by (rule of_nat_neq_0)
      with z show False by simp
    qed
  qed simp
  ultimately show ?thesis using assms(1) by auto
qed

lemma clip_body_sel:
  "seqs (clip_body mc lo hi st) =
     fst (partition_range (clip_pred (fst (m_central_on mc (seqs st) 0 (c_size st)))
            (sqrt (snd (m_central_on mc (seqs st) 0 (c_size st)))) lo hi) (seqs st) (ned st))"
  "ned (clip_body mc lo hi st) =
     snd (partition_range (clip_pred (fst (m_central_on mc (seqs st) 0 (c_size st)))
            (sqrt (snd (m_central_on mc (seqs st) 0 (c_size st)))) lo hi) (seqs st) (ned st))"
  "delta (clip_body mc lo hi st) = of_nat (c_size st) - of_nat (ned (clip_body mc lo hi st))"
  "c_mean (clip_body mc lo hi st) = fst (m_central_on mc (seqs st) 0 (c_size st))"
  "c_std (clip_body mc lo hi st) = sqrt (snd (m_central_on mc (seqs st) 0 (c_size st)))"
  "c_size (clip_body mc lo hi st) = length (seqs st)"
  by (simp_all add: clip_body_def Let_def split_beta)

subsection \<open>The clipping loop\<close>

lemma clip_stuck_body:
  assumes "clip_stuck st"
  shows "clip_stuck (clip_body mc lo hi st) \<and> delta (clip_body mc lo hi st) \<noteq> 0"
proof -
  let ?st' = "clip_body mc lo hi st"
  have len: "length (seqs ?st') = length (seqs st)"
    by (simp add: clip_body_sel length_partition_range)
  have "ned ?st' \<le> min (ned st) (length (seqs st))"
    by (simp only: clip_body_sel snd_partition_range_le)
  then have lt: "ned ?st' < length (seqs st)" using assms by (simp add: clip_stuck_def)
  have d: "delta ?st' = of_nat (length (seqs st)) - of_nat (ned ?st')"
    using assms by (simp add: clip_body_sel clip_stuck_def)
  have le: "ned ?st' \<le> length (seqs st)" using lt by simp
  have b: "length (seqs st) < 2 ^ 32" using assms by (simp add: clip_stuck_def)
  have "delta ?st' \<noteq> 0"
    unfolding d using delta_zero_iff[OF le b] lt by simp
  moreover have "clip_stuck ?st'"
    using assms lt len by (simp add: clip_stuck_def clip_body_sel)
  ultimately show ?thesis by simp
qed

lemma clip_loop_stuck_aux:
  assumes "clip_loop mc lo hi st = Some y"
  shows "\<not> clip_stuck st"
  using assms
proof (rule clip_loop.raw_induct [where P = "\<lambda>_ _ _ s _. \<not> clip_stuck s", rotated])
  fix loop :: "central_tendency \<Rightarrow> real \<Rightarrow> real \<Rightarrow> clip_state \<Rightarrow> clip_state option"
  fix mc lo hi st y
  assume IH: "\<And>a b c d e. loop a b c d = Some e \<Longrightarrow> \<not> clip_stuck d"
  assume step: "(let st' = clip_body mc lo hi st
      in if delta st' \<noteq> 0 then loop mc lo hi st' else Some st') = Some y"
  show "\<not> clip_stuck st"
  proof
    assume s: "clip_stuck st"
    from clip_stuck_body[OF s, of mc lo hi]
    have s': "clip_stuck (clip_body mc lo hi st)" and d: "delta (clip_body mc lo hi st) \<noteq> 0"
      by simp_all
    from step d have "loop mc lo hi (clip_body mc lo hi st) = Some y"
      by (simp add: Let_def)
    from IH[OF this] s' show False by simp
  qed
qed

lemma clip_loop_stuck: "clip_stuck st \<Longrightarrow> clip_loop mc lo hi st = None"
  using clip_loop_stuck_aux[of mc lo hi st] by (cases "clip_loop mc lo hi st") auto

lemma clip_loop_exit:
  "delta (clip_body mc lo hi st) = 0 \<Longrightarrow> clip_loop mc lo hi st = Some (clip_body mc lo hi st)"
  by (subst clip_loop.simps) (simp add: Let_def)

lemma clip_loop_again:
  "delta (clip_body mc lo hi st) \<noteq> 0 \<Longrightarrow> clip_loop mc lo hi st = clip_loop mc lo hi (clip_body mc lo hi st)"
  by (subst clip_loop.simps) (simp add: Let_def)

lemma clip_loop_Some_iter:
  assumes "clip_loop mc lo hi st = Some y"
  shows "\<exists>k. y = (clip_body mc lo hi ^^ Suc k) st \<and> delta y = 0"
  using assms
proof (rule clip_loop.raw_induct
    [where P = "\<lambda>mc lo hi s y. \<exists>k. y = (clip_body mc lo hi ^^ Suc k) s \<and> delta y = 0", rotated])
  fix loop :: "central_tendency \<Rightarrow> real \<Rightarrow> real \<Rightarrow> clip_state \<Rightarrow> clip_state option"
  fix mc lo hi st y
  assume IH: "\<And>a b c d e. loop a b c d = Some e \<Longrightarrow> \<exists>k. e = (clip_body a b c ^^ Suc k) d \<and> delta e = 0"
  assume step: "(let st' = clip_body mc lo hi st
      in if delta st' \<noteq> 0 then loop mc lo hi st' else Some st') = Some y"
  show "\<exists>k. y = (clip_body mc lo hi ^^ Suc k) st \<and> delta y = 0"
  proof (cases "delta (clip_body mc lo hi st) = 0")
    case True
    with step have "y = clip_body mc lo hi st" by (simp add: Let_def)
    with True have "y = (clip_body mc lo hi ^^ Suc 0) st \<and> delta y = 0" by simp
    then show ?thesis by blast
  next
    case False
    with step have "loop mc lo hi (clip_body mc lo hi st) = Some y" by (simp add: Let_def)
    from IH[OF this] obtain k where
      "y = (clip_body mc lo hi ^^ Suc k) (clip_body mc lo hi st)" and d: "delta y = 0" by blast
    then have "y = (clip_body mc lo hi ^^ Suc (Suc k)) st"
      by (simp only: funpow_Suc_right o_apply)
    with d show ?thesis by blast
  qed
qed

lemma clip_pred_iff:
  "clip_pred m s lo hi z \<longleftrightarrow> fst z < m - s * lo \<and> fst z < m + s * hi"
  by (simp add: clip_pred_def compose2_def compose1_def bind1st_def bind2nd_def
      logical_and_def less_double_def greater_double_def select1st_def)

lemma clip_init_sel:
  "seqs (clip_init zs) = zs" "ned (clip_init zs) = length zs" "c_size (clip_init zs) = length zs"
  by (simp_all add: clip_init_def)

lemma clip_iter_0: "clip_iter mc lo hi zs 0 = clip_init zs"
  by (simp add: clip_iter_def)

lemma clip_iter_Suc: "clip_iter mc lo hi zs (Suc k) = clip_body mc lo hi (clip_iter mc lo hi zs k)"
  by (simp add: clip_iter_def)

lemma mset_clip_body: "mset (seqs (clip_body mc lo hi st)) = mset (seqs st)"
  by (simp only: clip_body_sel mset_partition_range)

lemma length_clip_body: "length (seqs (clip_body mc lo hi st)) = length (seqs st)"
  by (simp only: clip_body_sel length_partition_range)

lemma mset_clip_iter: "mset (seqs (clip_iter mc lo hi zs k)) = mset zs"
  by (induction k) (simp_all add: clip_iter_0 clip_iter_Suc clip_init_sel mset_clip_body)

lemma ned_clip_body_le: "ned (clip_body mc lo hi st) \<le> ned st"
proof -
  have "ned (clip_body mc lo hi st) \<le> min (ned st) (length (seqs st))"
    by (simp only: clip_body_sel snd_partition_range_le)
  then show ?thesis by simp
qed

text \<open>The first pass decides: either every sample passes the predicate and the loop is left, or it is never left.\<close>

lemma first_pass_full:
  assumes "ned (clip_body mc lo hi (clip_init zs)) = length zs"
  shows "clip_body mc lo hi (clip_init zs) =
     \<lparr>seqs = zs, ned = length zs, delta = 0,
      c_mean = fst (m_central_on mc zs 0 (length zs)),
      c_std = sqrt (snd (m_central_on mc zs 0 (length zs))),
      c_size = length zs\<rparr>"
proof -
  let ?p = "clip_pred (fst (m_central_on mc zs 0 (length zs)))
              (sqrt (snd (m_central_on mc zs 0 (length zs)))) lo hi"
  from assms have "snd (partition_range ?p zs (length zs)) = length zs"
    by (simp add: clip_body_sel clip_init_sel)
  then have "\<forall>z \<in> set zs. ?p z" by (simp only: partition_range_full_iff)
  then have "\<forall>z \<in> set (take (length zs) zs). ?p z" by simp
  then have "partition_range ?p zs (length zs) = (zs, min (length zs) (length zs))"
    by (rule partition_range_all)
  then show ?thesis
    by (simp add: clip_body_def clip_init_def Let_def)
qed

lemma run_returns:
  assumes "ned (clip_body mc lo hi (clip_init zs)) = length zs"
  shows "RejectSigmaClip_run mc lo hi zs = Some (clip_body mc lo hi (clip_init zs))"
proof -
  have "delta (clip_body mc lo hi (clip_init zs)) = 0"
    by (subst first_pass_full[OF assms]) simp
  then show ?thesis
    unfolding RejectSigmaClip_run_def by (rule clip_loop_exit)
qed

lemma run_diverges:
  assumes "length zs < 2 ^ 32" and "ned (clip_body mc lo hi (clip_init zs)) \<noteq> length zs"
  shows "RejectSigmaClip_run mc lo hi zs = None"
proof -
  let ?st = "clip_body mc lo hi (clip_init zs)"
  have le: "ned ?st \<le> length zs"
    using ned_clip_body_le[of mc lo hi "clip_init zs"] by (simp add: clip_init_sel)
  with assms(2) have lt: "ned ?st < length zs" by simp
  have len: "length (seqs ?st) = length zs" by (simp add: length_clip_body clip_init_sel)
  have "clip_stuck ?st"
    using lt len assms(1) by (simp add: clip_stuck_def clip_body_sel clip_init_sel)
  then have none: "clip_loop mc lo hi ?st = None" by (rule clip_loop_stuck)
  have "delta ?st = of_nat (length zs) - of_nat (ned ?st)"
    by (simp add: clip_body_sel clip_init_sel)
  with delta_zero_iff[OF le assms(1)] lt have "delta ?st \<noteq> 0" by simp
  then have "clip_loop mc lo hi (clip_init zs) = clip_loop mc lo hi ?st"
    by (rule clip_loop_again)
  with none show ?thesis by (simp add: RejectSigmaClip_run_def)
qed

lemma run_Some_first_pass:
  assumes "length zs < 2 ^ 32" and "RejectSigmaClip_run mc lo hi zs = Some st"
  shows "st = clip_body mc lo hi (clip_init zs) \<and> ned st = length zs \<and> seqs st = zs"
proof -
  have full: "ned (clip_body mc lo hi (clip_init zs)) = length zs"
  proof (rule ccontr)
    assume "ned (clip_body mc lo hi (clip_init zs)) \<noteq> length zs"
    with assms(1) have "RejectSigmaClip_run mc lo hi zs = None" by (rule run_diverges)
    with assms(2) show False by simp
  qed
  from run_returns[OF full] assms(2) have st: "st = clip_body mc lo hi (clip_init zs)" by simp
  moreover from full st have "ned st = length zs" by simp
  moreover from first_pass_full[OF full] st have "seqs st = zs" by simp
  ultimately show ?thesis by simp
qed

subsection \<open>Evaluating the loop on an example\<close>

text \<open>
  The running example: the values 1, 2, 3 with unit weights, the mean functor
  and both multipliers 1/2. The estimate is (2, 1), so the band of the
  specification is the open interval from 3/2 to 5/2.
\<close>

lemma mean_central_123: "mean_central [1, 2, 3] ws = (2, 1)"
  by (simp add: mean_central_def Let_def power2_eq_square)

lemma m_central_on_full: "m_central_on mc zs 0 (length zs) = mc (map fst zs) (map snd zs)"
  by (simp add: m_central_on_def)

lemma ex_pass1:
  "clip_body mean_central (1/2) (1/2) (clip_init [(1,1),(2,1),(3,1)]) =
     \<lparr>seqs = [(1,1),(2,1),(3,1)], ned = 1, delta = 2, c_mean = 2, c_std = 1, c_size = 3\<rparr>"
  by (simp add: clip_body_def clip_init_def m_central_on_def mean_central_123 partition_range_def
      clip_pred_iff Let_def)

lemma ex_pass2:
  "clip_body mean_central (1/2) (1/2)
     \<lparr>seqs = [(1,1),(2,1),(3,1)], ned = 1, delta = 2, c_mean = 2, c_std = 1, c_size = 3\<rparr> =
     \<lparr>seqs = [(1,1),(2,1),(3,1)], ned = 1, delta = 2, c_mean = 2, c_std = 1, c_size = 3\<rparr>"
  by (simp add: clip_body_def m_central_on_def mean_central_123 partition_range_def
      clip_pred_iff Let_def)

lemma ex_iter1:
  "clip_iter mean_central (1/2) (1/2) [(1,1),(2,1),(3,1)] 1 =
     \<lparr>seqs = [(1,1),(2,1),(3,1)], ned = 1, delta = 2, c_mean = 2, c_std = 1, c_size = 3\<rparr>"
  using ex_pass1 by (simp add: clip_iter_Suc clip_iter_0)

lemma ex_iter2:
  "clip_iter mean_central (1/2) (1/2) [(1,1),(2,1),(3,1)] 2 =
     \<lparr>seqs = [(1,1),(2,1),(3,1)], ned = 1, delta = 2, c_mean = 2, c_std = 1, c_size = 3\<rparr>"
  using ex_pass1 ex_pass2 by (simp add: clip_iter_Suc clip_iter_0 numeral_2_eq_2)

subsection \<open>Claims about RejectSigmaClip\<close>

text \<open>
  C1. The claim: for every sample set the loop is left, within as many passes
  as there are samples, the number of kept samples never grows, and each pass
  estimates on the survivors only. The source resets \<open>c_size\<close> to
  \<open>end - begin\<close> at the end of every pass, so every estimate runs over the whole
  sequence and \<open>delta\<close> compares the kept count with the full length: once a
  sample is rejected the loop is never left. On the running example
  \<open>combine\<close> does not return; after the first pass one sample is kept while
  \<open>c_size\<close> is 3 again, and the second pass reproduces the state of the first.
\<close>

theorem sigma_clip_never_returns_example:
  "RejectSigmaClip_combine mean_central (1/2) (1/2) [(1,1),(2,1),(3,1)] = None
   \<and> ned (clip_iter mean_central (1/2) (1/2) [(1,1),(2,1),(3,1)] 1) = 1
   \<and> c_size (clip_iter mean_central (1/2) (1/2) [(1,1),(2,1),(3,1)] 1) = 3
   \<and> clip_iter mean_central (1/2) (1/2) [(1,1),(2,1),(3,1)] 2
       = clip_iter mean_central (1/2) (1/2) [(1,1),(2,1),(3,1)] 1"
proof -
  let ?zs = "[(1,1),(2,1),(3,1)] :: sample list"
  have "length ?zs < 2 ^ 32" by simp
  moreover have "ned (clip_body mean_central (1/2) (1/2) (clip_init ?zs)) \<noteq> length ?zs"
    by (simp add: ex_pass1)
  ultimately have "RejectSigmaClip_run mean_central (1/2) (1/2) ?zs = None"
    by (rule run_diverges)
  then have "RejectSigmaClip_combine mean_central (1/2) (1/2) ?zs = None"
    by (simp add: RejectSigmaClip_combine_def)
  then show ?thesis
    by (simp only: ex_iter1 ex_iter2) simp
qed

text \<open>
  C2. The claim: a sample is kept exactly when its value lies strictly between
  \<open>mean - lowSigma * \<sigma>\<close> and \<open>mean + highSigma * \<sigma>\<close>. The comment in the source
  says the same, but \<open>bind2nd(less, low)\<close> tests \<open>value < low\<close>: the predicate
  keeps what lies below both bounds (\<open>clip_pred_iff\<close>). On the running example
  the estimate is (2, 1) and the band runs from 3/2 to 5/2; the value 2 inside
  the band is rejected and the value 1 below it is the only one kept.
\<close>

theorem sigma_clip_band_example:
  "c_mean (clip_iter mean_central (1/2) (1/2) [(1,1),(2,1),(3,1)] 1) = 2
   \<and> c_std (clip_iter mean_central (1/2) (1/2) [(1,1),(2,1),(3,1)] 1) = 1
   \<and> kept (clip_iter mean_central (1/2) (1/2) [(1,1),(2,1),(3,1)] 1) = [(1,1)]
   \<and> \<not> clip_pred 2 1 (1/2) (1/2) (2, 1)
   \<and> clip_pred 2 1 (1/2) (1/2) (1, 1)"
  by (simp only: ex_iter1) (simp add: kept_def clip_pred_iff)

lemma combine_of_run:
  "RejectSigmaClip_run mc lo hi zs = Some st \<Longrightarrow>
   RejectSigmaClip_combine mc lo hi zs =
     Some (seqs st, \<lparr>center = c_mean st, dispersion = c_std st, countUsed = real (c_size st)\<rparr>)"
  by (simp add: RejectSigmaClip_combine_def)

lemma run_of_combine:
  "RejectSigmaClip_combine mc lo hi zs = Some (zs', res) \<Longrightarrow>
   \<exists>st. RejectSigmaClip_run mc lo hi zs = Some st \<and> zs' = seqs st \<and>
     res = \<lparr>center = c_mean st, dispersion = c_std st, countUsed = real (c_size st)\<rparr>"
  by (auto simp add: RejectSigmaClip_combine_def)

lemma run_Some_iter:
  assumes "RejectSigmaClip_run mc lo hi zs = Some st"
  shows "\<exists>k. st = clip_iter mc lo hi zs (Suc k) \<and> delta st = 0"
proof -
  from assms have "clip_loop mc lo hi (clip_init zs) = Some st"
    by (simp add: RejectSigmaClip_run_def)
  then obtain k where "st = (clip_body mc lo hi ^^ Suc k) (clip_init zs)" and "delta st = 0"
    using clip_loop_Some_iter by blast
  then have "st = clip_iter mc lo hi zs (Suc k) \<and> delta st = 0"
    by (simp only: clip_iter_def) 
  then show ?thesis by blast
qed

text \<open>
  A second example, on which the loop is left: the values 1, 3, 5 with the mean
  functor, whose estimate is (3, 4), and a negative low multiplier, so that
  every value is below both bounds.
\<close>

lemma mean_central_135: "mean_central [1, 3, 5] ws = (3, 4)"
  by (simp add: mean_central_def Let_def power2_eq_square)

lemma ex_returns:
  "RejectSigmaClip_run mean_central (- 2) 2 [(1,1),(3,1),(5,1)] =
     Some \<lparr>seqs = [(1,1),(3,1),(5,1)], ned = 3, delta = 0, c_mean = 3, c_std = 2, c_size = 3\<rparr>"
proof -
  have b: "clip_body mean_central (- 2) 2 (clip_init [(1,1),(3,1),(5,1)]) =
     \<lparr>seqs = [(1,1),(3,1),(5,1)], ned = 3, delta = 0, c_mean = 3, c_std = 2, c_size = 3\<rparr>"
    by (simp add: clip_body_def clip_init_def m_central_on_def mean_central_135 partition_range_def
      clip_pred_iff Let_def)
  then have "ned (clip_body mean_central (- 2) 2 (clip_init [(1,1),(3,1),(5,1)])) = length [(1::real,1::real),(3,1),(5,1)]"
    by simp
  from run_returns[OF this] b show ?thesis by simp
qed

subsection \<open>Runs on \<open>2^32\<close> samples and more\<close>

text \<open>
  The difference of the sizes is stored in an \<open>int\<close>, so a pass that rejects a
  multiple of \<open>2^32\<close> samples leaves the loop as a pass that rejects nothing
  does. The inputs are \<open>2^32\<close> equal samples, all of them rejected, and \<open>2^32\<close>
  samples of value 10 with one of value 0 behind them, of which only the last
  is kept.
\<close>

lemma mean_central_replicate:
  assumes "0 < n"
  shows "mean_central (replicate n c) ws = (c, 0)"
proof -
  have ne: "replicate n c \<noteq> []" using assms by simp
  have m: "sum_list (replicate n c) / real n = c"
    using assms by (simp add: sum_list_replicate)
  have "map (\<lambda>v. (v - c)\<^sup>2) (replicate n c) = replicate n 0" by simp
  then have "sum_list (map (\<lambda>v. (v - c)\<^sup>2) (replicate n c)) = 0"
    by (simp only: sum_list_replicate)
  with ne m show ?thesis by (simp add: mean_central_def Let_def)
qed

lemma all_rejected_pass:
  assumes "0 < n"
  shows "clip_body mean_central lo hi (clip_init (replicate n (c, w))) =
     \<lparr>seqs = replicate n (c, w), ned = 0, delta = of_nat n, c_mean = c, c_std = 0, c_size = n\<rparr>"
proof -
  have e: "m_central_on mean_central (replicate n (c, w)) 0 n = (c, 0)"
    using mean_central_replicate[OF assms] by (simp add: m_central_on_def)
  have p: "\<not> clip_pred c 0 lo hi (c, w)" by (simp add: clip_pred_iff)
  then have "partition_range (clip_pred c 0 lo hi) (replicate n (c, w)) n = (replicate n (c, w), 0)"
    by (simp add: partition_range_def)
  then show ?thesis
    by (simp add: clip_body_def clip_init_def e Let_def)
qed

lemma all_rejected_returns:
  assumes "0 < n" and "(of_nat n :: 32 word) = 0"
  shows "RejectSigmaClip_run mean_central lo hi (replicate n (c, w)) =
     Some \<lparr>seqs = replicate n (c, w), ned = 0, delta = 0, c_mean = c, c_std = 0, c_size = n\<rparr>"
proof -
  have b: "clip_body mean_central lo hi (clip_init (replicate n (c, w))) =
     \<lparr>seqs = replicate n (c, w), ned = 0, delta = 0, c_mean = c, c_std = 0, c_size = n\<rparr>"
    using all_rejected_pass[OF assms(1)] assms(2) by simp
  then have "delta (clip_body mean_central lo hi (clip_init (replicate n (c, w)))) = 0" by simp
  then have "clip_loop mean_central lo hi (clip_init (replicate n (c, w)))
      = Some (clip_body mean_central lo hi (clip_init (replicate n (c, w))))"
    by (rule clip_loop_exit)
  with b show ?thesis by (simp add: RejectSigmaClip_run_def)
qed

lemma word32_of_2p32: "(of_nat (2 ^ 32) :: 32 word) = 0"
  using of_nat_2p[where 'a = 32] by simp

lemma ex_wrap_run:
  "RejectSigmaClip_run mean_central (1/2) (1/2) (replicate (2 ^ 32) (1, 1)) =
     Some \<lparr>seqs = replicate (2 ^ 32) (1, 1), ned = 0, delta = 0, c_mean = 1, c_std = 0,
           c_size = 2 ^ 32\<rparr>"
  by (rule all_rejected_returns) (simp_all only: word32_of_2p32 zero_less_power zero_less_numeral)

lemma empty_run:
  "RejectSigmaClip_run mc lo hi [] =
     Some \<lparr>seqs = [], ned = 0, delta = 0, c_mean = fst (mc [] []), c_std = sqrt (snd (mc [] [])),
           c_size = 0\<rparr>"
proof -
  have b: "clip_body mc lo hi (clip_init []) =
     \<lparr>seqs = [], ned = 0, delta = 0, c_mean = fst (mc [] []), c_std = sqrt (snd (mc [] [])),
           c_size = 0\<rparr>"
    by (simp add: clip_body_def clip_init_def m_central_on_def partition_range_def Let_def)
  then have "delta (clip_body mc lo hi (clip_init [])) = 0" by simp
  then have "clip_loop mc lo hi (clip_init []) = Some (clip_body mc lo hi (clip_init []))"
    by (rule clip_loop_exit)
  with b show ?thesis by (simp add: RejectSigmaClip_run_def)
qed

lemma mean_central_tens_zero:
  assumes "2 \<le> n"
  shows "mean_central (replicate n 10 @ [0]) ws = (10 * real n / (real n + 1), 100 / (real n + 1))"
proof -
  let ?a = "real n"
  let ?m = "10 * ?a / (?a + 1)"
  have a: "0 < ?a" using assms by simp
  have len: "real (length (replicate n (10::real) @ [0])) = ?a + 1" by simp
  have s: "sum_list (replicate n (10::real) @ [0]) = 10 * ?a"
    by (simp add: sum_list_replicate)
  have "map (\<lambda>v. (v - ?m)\<^sup>2) (replicate n 10 @ [0]) = replicate n ((10 - ?m)\<^sup>2) @ [?m\<^sup>2]"
    by simp
  then have "sum_list (map (\<lambda>v. (v - ?m)\<^sup>2) (replicate n 10 @ [0])) = ?a * (10 - ?m)\<^sup>2 + ?m\<^sup>2"
    by (simp only: sum_list_append sum_list_replicate) simp
  moreover have "10 - ?m = 10 / (?a + 1)" using a by (simp add: field_simps)
  ultimately have "sum_list (map (\<lambda>v. (v - ?m)\<^sup>2) (replicate n 10 @ [0]))
      = ?a * (10 / (?a + 1))\<^sup>2 + ?m\<^sup>2" by simp
  also have "\<dots> = (100 * ?a * (?a + 1)) / ((?a + 1) * (?a + 1))"
    by (simp add: power_divide power2_eq_square add_divide_distrib distrib_left ac_simps)
  also have "\<dots> = ?a * (100 / (?a + 1))"
    using a by simp
  finally have v: "sum_list (map (\<lambda>v. (v - ?m)\<^sup>2) (replicate n 10 @ [0])) / ?a = 100 / (?a + 1)"
    using a by simp
  have l2: "\<not> length (replicate n (10::real) @ [0]) < 2" using assms by simp
  have ne: "replicate n (10::real) @ [0] \<noteq> []" by simp
  show ?thesis
    by (simp only: mean_central_def Let_def ne l2 len s if_False add_diff_cancel_right' v)
qed


lemma tens_zero_pred:
  assumes "2 \<le> n"
  shows "clip_pred (10 * real n / (real n + 1)) (sqrt (100 / (real n + 1))) (1/2) (1/2) (0, w)"
    and "\<not> clip_pred (10 * real n / (real n + 1)) (sqrt (100 / (real n + 1))) (1/2) (1/2) (10, w)"
proof -
  let ?a = "real n"
  let ?m = "10 * ?a / (?a + 1)"
  let ?s = "sqrt (100 / (?a + 1))"
  have a: "2 \<le> ?a" using assms by simp
  have s0: "0 \<le> ?s" using a by simp
  have "100 / (?a + 1) \<le> 10 * 10" using a by (simp add: field_simps)
  then have "?s \<le> sqrt (10 * 10)" by (simp only: real_sqrt_le_iff)
  then have s10: "?s \<le> 10" by simp
  have m5: "5 < ?m" using a by (simp add: field_simps)
  have m10: "?m < 10" using a by (simp add: field_simps)
  have "0 < ?m - ?s * (1/2)" using s10 m5 by linarith
  moreover have "0 < ?m + ?s * (1/2)" using s0 m5 by linarith
  ultimately show "clip_pred ?m ?s (1/2) (1/2) (0, w)"
    by (simp only: clip_pred_iff fst_conv simp_thms)
  have "\<not> 10 < ?m - ?s * (1/2)" using s0 m10 by linarith
  then show "\<not> clip_pred ?m ?s (1/2) (1/2) (10, w)"
    by (simp only: clip_pred_iff fst_conv simp_thms)
qed

lemma tens_zero_pass:
  assumes "2 \<le> n"
  shows "clip_body mean_central (1/2) (1/2) (clip_init (replicate n (10, 1) @ [(0, 1)])) =
     \<lparr>seqs = (0, 1) # replicate n (10, 1), ned = 1, delta = of_nat n,
      c_mean = 10 * real n / (real n + 1), c_std = sqrt (100 / (real n + 1)), c_size = Suc n\<rparr>"
proof -
  let ?zs = "replicate n (10, 1) @ [(0, 1)] :: sample list"
  let ?p = "clip_pred (10 * real n / (real n + 1)) (sqrt (100 / (real n + 1))) (1/2) (1/2)"
  have e: "m_central_on mean_central ?zs 0 (Suc n) = (10 * real n / (real n + 1), 100 / (real n + 1))"
    using mean_central_tens_zero[OF assms] by (simp add: m_central_on_def)
  have "filter ?p ?zs = [(0, 1)]" and "filter (\<lambda>z. \<not> ?p z) ?zs = replicate n (10, 1)"
    using tens_zero_pred[OF assms] by simp_all
  then have "partition_range ?p ?zs (Suc n) = ((0, 1) # replicate n (10, 1), 1)"
    by (simp add: partition_range_def)
  then show ?thesis
    by (simp add: clip_body_def clip_init_def e Let_def)
qed

lemma ex_tens_zero_run:
  "map_option kept
     (RejectSigmaClip_run mean_central (1/2) (1/2) (replicate (2 ^ 32) (10, 1) @ [(0, 1)]))
   = Some [(0, 1)]"
proof -
  let ?n = "2 ^ 32 :: nat"
  let ?zs = "replicate ?n (10, 1) @ [(0, 1)] :: sample list"
  have n2: "2 \<le> ?n" by simp
  have w: "(of_nat ?n :: 32 word) = 0" using of_nat_2p[where 'a = 32] by simp
  let ?st = "clip_body mean_central (1/2) (1/2) (clip_init ?zs)"
  have b: "?st = \<lparr>seqs = (0, 1) # replicate ?n (10, 1), ned = 1, delta = 0,
      c_mean = 10 * real ?n / (real ?n + 1), c_std = sqrt (100 / (real ?n + 1)), c_size = Suc ?n\<rparr>"
    by (simp only: tens_zero_pass[OF n2] w)
  then have "delta ?st = 0" by (simp only: clip_state.simps)
  then have "clip_loop mean_central (1/2) (1/2) (clip_init ?zs) = Some ?st"
    by (rule clip_loop_exit)
  then have "map_option kept (RejectSigmaClip_run mean_central (1/2) (1/2) ?zs) = Some (kept ?st)"
    by (simp only: RejectSigmaClip_run_def option.map)
  moreover have "kept ?st = [(0, 1)]"
    by (simp only: b kept_def clip_state.simps) simp
  ultimately show ?thesis by (simp only:)
qed

lemma ex_zero_rerun:
  "RejectSigmaClip_combine mean_central (1/2) (1/2) [(0, 1)] = None"
proof -
  have "clip_body mean_central (1/2) (1/2) (clip_init [(0, 1)]) =
      \<lparr>seqs = [(0, 1)], ned = 0, delta = 1, c_mean = 0, c_std = 0, c_size = 1\<rparr>"
    by (simp add: clip_body_def clip_init_def m_central_on_def mean_central_def partition_range_def
        clip_pred_iff Let_def)
  then have "ned (clip_body mean_central (1/2) (1/2) (clip_init [(0, 1)])) \<noteq> length [(0::real, 1::real)]"
    by simp
  moreover have "length [(0::real, 1::real)] < 2 ^ 32" by simp
  ultimately have "RejectSigmaClip_run mean_central (1/2) (1/2) [(0, 1)] = None"
    by (rule run_diverges[rotated])
  then show ?thesis by (simp add: RejectSigmaClip_combine_def)
qed

text \<open>
  C3. The claim: when \<open>combine\<close> returns, the count slot holds the number of
  samples in the final kept set \<open>[beg, ned)\<close>, and the center and dispersion
  slots hold the last estimate over that set. The slot is written from
  \<open>c_size\<close>, which the last statement of the loop body has reset to
  \<open>end - begin\<close>: it is the length of the input. Below \<open>2^32\<close> samples a run that
  returns has rejected nothing (\<open>run_Some_first_pass\<close>), and there the two
  agree. On \<open>2^32\<close> samples of value 1 the estimate is (1, 0), every sample is
  rejected, the difference \<open>2^32 - 0\<close> is 0 as an \<open>int\<close> and the loop is left:
  the count slot holds \<open>2^32\<close>, the kept set is empty, and the center and the
  dispersion are the estimate over all the samples.
\<close>

theorem sigma_clip_count_example:
  "RejectSigmaClip_combine mean_central (1/2) (1/2) (replicate (2 ^ 32) (1, 1)) =
     Some (replicate (2 ^ 32) (1, 1), \<lparr>center = 1, dispersion = 0, countUsed = 2 ^ 32\<rparr>)
   \<and> RejectSigmaClip_run mean_central (1/2) (1/2) (replicate (2 ^ 32) (1, 1)) =
     Some \<lparr>seqs = replicate (2 ^ 32) (1, 1), ned = 0, delta = 0, c_mean = 1, c_std = 0,
           c_size = 2 ^ 32\<rparr>
   \<and> kept \<lparr>seqs = replicate (2 ^ 32) (1, 1), ned = 0, delta = 0, c_mean = 1, c_std = 0,
           c_size = 2 ^ 32\<rparr> = []"
proof -
  have "RejectSigmaClip_combine mean_central (1/2) (1/2) (replicate (2 ^ 32) (1, 1)) =
     Some (replicate (2 ^ 32) (1, 1), \<lparr>center = 1, dispersion = 0, countUsed = 2 ^ 32\<rparr>)"
    using combine_of_run[OF ex_wrap_run] by simp
  moreover have "kept \<lparr>seqs = replicate (2 ^ 32) (1::real, 1::real), ned = 0, delta = 0,
      c_mean = 1, c_std = 0, c_size = 2 ^ 32\<rparr> = []"
    by (simp add: kept_def)
  ultimately show ?thesis using ex_wrap_run by (simp only:) 
qed

text \<open>
  C8. The claim: running \<open>combine\<close> again on the kept set that a run has
  produced removes no further sample and writes the same count. On the input
  above the kept set is empty, and the run on the empty set writes the count 0,
  not \<open>2^32\<close>. On \<open>2^32\<close> samples of value 10 followed by one of value 0 the run
  returns with the sample of value 0 as its kept set; the run on that kept set
  rejects this sample and does not return.
\<close>

theorem sigma_clip_rerun_example:
  "map_option (\<lambda>r. countUsed (snd r))
       (RejectSigmaClip_combine mean_central (1/2) (1/2) (replicate (2 ^ 32) (1, 1))) = Some (2 ^ 32)
   \<and> map_option kept
       (RejectSigmaClip_run mean_central (1/2) (1/2) (replicate (2 ^ 32) (1, 1))) = Some []
   \<and> map_option (\<lambda>r. countUsed (snd r))
       (RejectSigmaClip_combine mean_central (1/2) (1/2) []) = Some 0
   \<and> map_option kept
       (RejectSigmaClip_run mean_central (1/2) (1/2) (replicate (2 ^ 32) (10, 1) @ [(0, 1)]))
       = Some [(0, 1)]
   \<and> RejectSigmaClip_combine mean_central (1/2) (1/2) [(0, 1)] = None"
proof -
  have "map_option (\<lambda>r. countUsed (snd r))
       (RejectSigmaClip_combine mean_central (1/2) (1/2) (replicate (2 ^ 32) (1, 1))) = Some (2 ^ 32)"
    using combine_of_run[OF ex_wrap_run] by simp
  moreover have "map_option kept
       (RejectSigmaClip_run mean_central (1/2) (1/2) (replicate (2 ^ 32) (1, 1))) = Some []"
    by (simp only: ex_wrap_run option.map) (simp add: kept_def)
  moreover have "map_option (\<lambda>r. countUsed (snd r))
       (RejectSigmaClip_combine mean_central (1/2) (1/2) []) = Some 0"
    using combine_of_run[OF empty_run, of mean_central "1/2" "1/2"] by simp
  ultimately show ?thesis using ex_tens_zero_run ex_zero_rerun by (simp only:)
qed

text \<open>
  C10. The samples are only permuted, as whole (value, weight) pairs: after
  any number of passes through the loop body, and in the state in which the
  loop is left, the sequences hold the multiset of pairs of the input.
\<close>

theorem sigma_clip_preserves_samples:
  "mset (seqs (clip_iter mc lo hi zs k)) = mset zs
   \<and> (RejectSigmaClip_run mc lo hi zs = Some st \<longrightarrow> mset (seqs st) = mset zs)"
proof -
  have "mset (seqs st) = mset zs" if "RejectSigmaClip_run mc lo hi zs = Some st"
  proof -
    from run_Some_iter[OF that] obtain j where "st = clip_iter mc lo hi zs (Suc j)" by blast
    then show ?thesis by (simp only: mset_clip_iter)
  qed
  then show ?thesis by (simp add: mset_clip_iter)
qed

theorem sigma_clip_preserves_samples_witness:
  "mset (seqs (clip_iter mean_central (- 2) 2 [(1,1),(3,1),(5,1)] 5)) = mset [(1,1),(3,1),(5,1)]
   \<and> RejectSigmaClip_run mean_central (- 2) 2 [(1,1),(3,1),(5,1)] =
       Some \<lparr>seqs = [(1,1),(3,1),(5,1)], ned = 3, delta = 0, c_mean = 3, c_std = 2, c_size = 3\<rparr>
   \<and> mset (seqs \<lparr>seqs = [(1,1),(3,1),(5,1)], ned = 3, delta = 0, c_mean = 3, c_std = 2, c_size = 3\<rparr>)
       = mset [(1::real,1::real),(3,1),(5,1)]"
  using sigma_clip_preserves_samples[of mean_central "- 2" 2 "[(1,1),(3,1),(5,1)]" 5
      "\<lparr>seqs = [(1,1),(3,1),(5,1)], ned = 3, delta = 0, c_mean = 3, c_std = 2, c_size = 3\<rparr>"]
    ex_returns
  by simp

subsection \<open>The selection of RejectMinMax\<close>

lemma least_by_in: "least_by cmp m xs \<in> set (m # xs)"
proof (induction xs arbitrary: m)
  case Nil
  show ?case by simp
next
  case (Cons x xs)
  have "least_by cmp (if cmp x m then x else m) xs \<in> set ((if cmp x m then x else m) # xs)"
    by (rule Cons.IH)
  then show ?case by (auto split: if_splits)
qed

lemma least_by_key_le:
  fixes key :: "'a \<Rightarrow> real"
  assumes "x \<in> set (m # xs)"
  shows "key (least_by (\<lambda>a b. key a < key b) m xs) \<le> key x"
  using assms
proof (induction xs arbitrary: m x)
  case Nil
  then show ?case by simp
next
  case (Cons y ys)
  let ?m' = "if key y < key m then y else m"
  have m': "key ?m' \<le> key m" "key ?m' \<le> key y" by simp_all
  have first: "key (least_by (\<lambda>a b. key a < key b) ?m' ys) \<le> key ?m'"
    by (rule Cons.IH) simp
  show ?case
  proof (cases "x \<in> set ys")
    case True
    then have "x \<in> set (?m' # ys)" by simp
    then have "key (least_by (\<lambda>a b. key a < key b) ?m' ys) \<le> key x" by (rule Cons.IH)
    then show ?thesis by simp
  next
    case False
    with Cons.prems have "x = m \<or> x = y" by auto
    with first m' show ?thesis by auto
  qed
qed

lemma take_least_mset:
  "mset (fst (take_least cmp k zs)) + mset (snd (take_least cmp k zs)) = mset zs"
proof (induction cmp k zs rule: take_least.induct)
  case (1 cmp zs)
  show ?case by simp
next
  case (2 cmp k)
  show ?case by simp
next
  case (3 cmp k z zs)
  let ?m = "least_by cmp z zs"
  have "?m \<in> set (z # zs)" by (rule least_by_in)
  then have "add_mset ?m (mset (remove1 ?m (z # zs))) = mset (z # zs)"
    by (simp only: mset_remove1 insert_DiffM set_mset_mset)
  moreover have "mset (fst (take_least cmp k (remove1 ?m (z # zs))))
      + mset (snd (take_least cmp k (remove1 ?m (z # zs)))) = mset (remove1 ?m (z # zs))"
    using "3.IH" by simp
  ultimately show ?case
    by (simp add: Let_def split_beta del: remove1.simps)
qed

lemma take_least_length:
  "length (fst (take_least cmp k zs)) = min k (length zs)"
proof (induction cmp k zs rule: take_least.induct)
  case (1 cmp zs)
  show ?case by simp
next
  case (2 cmp k)
  show ?case by simp
next
  case (3 cmp k z zs)
  let ?m = "least_by cmp z zs"
  have "?m \<in> set (z # zs)" by (rule least_by_in)
  then have "length (remove1 ?m (z # zs)) = length zs"
    by (simp only: length_remove1) simp
  moreover have "length (fst (take_least cmp k (remove1 ?m (z # zs))))
      = min k (length (remove1 ?m (z # zs)))"
    using "3.IH" by simp
  ultimately show ?case
    by (simp add: Let_def split_beta del: remove1.simps)
qed

lemma take_least_key_le:
  fixes key :: "'a \<Rightarrow> real"
  assumes "l \<in> set (fst (take_least (\<lambda>a b. key a < key b) k zs))"
    and "r \<in> set (snd (take_least (\<lambda>a b. key a < key b) k zs))"
  shows "key l \<le> key r"
  using assms
proof (induction "\<lambda>a b. key a < key b" k zs rule: take_least.induct)
  case (1 zs)
  then show ?case by simp
next
  case (2 k)
  then show ?case by simp
next
  case (3 k z zs)
  let ?cmp = "\<lambda>a b. key a < key b"
  let ?m = "least_by ?cmp z zs"
  let ?t = "take_least ?cmp k (remove1 ?m (z # zs))"
  from "3.prems" have l: "l = ?m \<or> l \<in> set (fst ?t)" and r: "r \<in> set (snd ?t)"
    by (simp_all add: Let_def split_beta del: remove1.simps)
  show ?case
  proof (cases "l \<in> set (fst ?t)")
    case True
    with r show ?thesis using "3.hyps" by simp
  next
    case False
    with l have lm: "l = ?m" by simp
    have "set_mset (mset (snd ?t)) \<subseteq> set_mset (mset (remove1 ?m (z # zs)))"
      using take_least_mset[of ?cmp k "remove1 ?m (z # zs)"]
      by (metis mset_subset_eq_add_right set_mset_mono)
    with r have "r \<in> set (remove1 ?m (z # zs))" by auto
    then have "r \<in> set (z # zs)" using set_remove1_subset[of ?m "z # zs"] by blast
    then show ?thesis unfolding lm by (rule least_by_key_le)
  qed
qed

lemma sort_split_low:
  fixes ls rs vs :: "real list"
  assumes m: "mset ls + mset rs = mset vs"
    and le: "\<forall>l \<in> set ls. \<forall>r \<in> set rs. l \<le> r"
  shows "sort vs = sort ls @ sort rs"
proof -
  have "sorted (sort ls @ sort rs)"
    using le by (simp add: sorted_append)
  moreover have "mset (sort ls @ sort rs) = mset vs"
    using m by simp
  ultimately show ?thesis by (metis sorted_sort_id sort_key_id_if_sorted properties_for_sort)
qed

lemma smallest_mset:
  fixes ls rs vs :: "real list"
  assumes "mset ls + mset rs = mset vs"
    and "\<forall>l \<in> set ls. \<forall>r \<in> set rs. l \<le> r"
  shows "mset ls = mset (take (length ls) (sort vs))"
proof -
  have "sort vs = sort ls @ sort rs" using assms by (rule sort_split_low)
  then have "take (length ls) (sort vs) = sort ls" by simp
  then show ?thesis by simp
qed

lemma largest_mset:
  fixes hs rs vs :: "real list"
  assumes "mset rs + mset hs = mset vs"
    and "\<forall>r \<in> set rs. \<forall>h \<in> set hs. r \<le> h"
  shows "mset hs = mset (drop (length vs - length hs) (sort vs))"
proof -
  have s: "sort vs = sort rs @ sort hs" using assms by (rule sort_split_low)
  have "length vs = length rs + length hs"
    using assms(1) by (metis size_mset size_union)
  then have "length vs - length hs = length (sort rs)" by simp
  then have "drop (length vs - length hs) (sort vs) = sort hs" by (simp add: s)
  then show ?thesis by simp
qed

lemma take_least_length_snd:
  "length (snd (take_least cmp k zs)) = length zs - k"
proof -
  have "size (mset (fst (take_least cmp k zs)) + mset (snd (take_least cmp k zs))) = size (mset zs)"
    by (simp only: take_least_mset)
  then have "length (fst (take_least cmp k zs)) + length (snd (take_least cmp k zs)) = length zs"
    by simp
  then show ?thesis by (simp add: take_least_length)
qed

lemma by_value: "compose less_double select1st select1st = (\<lambda>a b. fst a < fst b)"
  by (intro ext) (simp add: compose_def less_double_def select1st_def)

lemma by_value_flipped:
  "(\<lambda>x y. compose less_double select1st select1st y x) = (\<lambda>a b. - fst a < - fst b)"
  by (intro ext) (simp add: compose_def less_double_def select1st_def)

lemma reject_min_max_by_value:
  "reject_min_max (compose less_double select1st select1st) nmin nmax zs =
    (let lows = fst (take_least (\<lambda>a b. fst a < fst b) nmin zs);
         rest = snd (take_least (\<lambda>a b. fst a < fst b) nmin zs);
         highs = fst (take_least (\<lambda>a b. - fst a < - fst b) nmax rest);
         mid = snd (take_least (\<lambda>a b. - fst a < - fst b) nmax rest)
     in (lows @ mid @ rev highs, length lows, length lows + length mid))"
  by (simp add: reject_min_max_def by_value_flipped Let_def split_beta) (simp add: by_value)

lemma minmax_low_eq:
  "minmax_low nmin nmax zs = fst (take_least (\<lambda>a b. fst a < fst b) nmin zs)"
  by (simp add: minmax_low_def reject_min_max_by_value Let_def)

lemma minmax_kept_eq:
  "minmax_kept nmin nmax zs =
     snd (take_least (\<lambda>a b. - fst a < - fst b) nmax (snd (take_least (\<lambda>a b. fst a < fst b) nmin zs)))"
  by (simp add: minmax_kept_def reject_min_max_by_value Let_def)

lemma minmax_high_eq:
  "minmax_high nmin nmax zs =
     rev (fst (take_least (\<lambda>a b. - fst a < - fst b) nmax (snd (take_least (\<lambda>a b. fst a < fst b) nmin zs))))"
  by (simp add: minmax_high_def reject_min_max_by_value Let_def)

lemma RejectMinMax_combine_eq:
  "RejectMinMax_combine mc nmin nmax zs =
     (minmax_low nmin nmax zs @ minmax_kept nmin nmax zs @ minmax_high nmin nmax zs,
      \<lparr>center = fst (mc (map fst (minmax_kept nmin nmax zs)) (map snd (minmax_kept nmin nmax zs))),
       dispersion = snd (mc (map fst (minmax_kept nmin nmax zs)) (map snd (minmax_kept nmin nmax zs))),
       countUsed = real (length (minmax_kept nmin nmax zs))\<rparr>)"
  by (simp add: RejectMinMax_combine_def minmax_low_eq minmax_kept_eq minmax_high_eq
      reject_min_max_by_value m_central_on_def Let_def)

lemma minmax_mset:
  "mset (minmax_low nmin nmax zs) + mset (minmax_kept nmin nmax zs) + mset (minmax_high nmin nmax zs)
     = mset zs"
proof -
  let ?c = "\<lambda>(a::sample) (b::sample). fst a < fst b"
  let ?d = "\<lambda>(a::sample) (b::sample). - fst a < - fst b"
  let ?rest = "snd (take_least ?c nmin zs)"
  have "mset (fst (take_least ?d nmax ?rest)) + mset (snd (take_least ?d nmax ?rest)) = mset ?rest"
    by (rule take_least_mset)
  moreover have "mset (fst (take_least ?c nmin zs)) + mset ?rest = mset zs"
    by (rule take_least_mset)
  ultimately show ?thesis
    by (simp add: minmax_low_eq minmax_kept_eq minmax_high_eq add.commute add.left_commute)
qed

lemma minmax_lengths:
  "length (minmax_low nmin nmax zs) = min nmin (length zs)"
  "length (minmax_kept nmin nmax zs) = length zs - nmin - nmax"
  "length (minmax_high nmin nmax zs) = min nmax (length zs - nmin)"
  by (simp_all add: minmax_low_eq minmax_kept_eq minmax_high_eq take_least_length
      take_least_length_snd)

lemma set_snd_take_least: "set (snd (take_least cmp k zs)) \<subseteq> set zs"
proof -
  have "set_mset (mset (snd (take_least cmp k zs))) \<subseteq> set_mset (mset zs)"
    using take_least_mset[of cmp k zs] by (metis mset_subset_eq_add_right set_mset_mono)
  then show ?thesis by simp
qed

lemma set_fst_take_least: "set (fst (take_least cmp k zs)) \<subseteq> set zs"
proof -
  have "set_mset (mset (fst (take_least cmp k zs))) \<subseteq> set_mset (mset zs)"
    using take_least_mset[of cmp k zs] by (metis mset_subset_eq_add_left set_mset_mono)
  then show ?thesis by simp
qed

lemma minmax_low_le:
  assumes "l \<in> set (minmax_low nmin nmax zs)"
    and "r \<in> set (minmax_kept nmin nmax zs) \<union> set (minmax_high nmin nmax zs)"
  shows "fst l \<le> fst r"
proof -
  let ?c = "\<lambda>(a::sample) (b::sample). fst a < fst b"
  let ?d = "\<lambda>(a::sample) (b::sample). - fst a < - fst b"
  let ?rest = "snd (take_least ?c nmin zs)"
  from assms(2) have "r \<in> set (snd (take_least ?d nmax ?rest)) \<union> set (fst (take_least ?d nmax ?rest))"
    by (simp add: minmax_kept_eq minmax_high_eq)
  then have "r \<in> set ?rest"
    using set_snd_take_least[of ?d nmax ?rest] set_fst_take_least[of ?d nmax ?rest] by blast
  moreover from assms(1) have "l \<in> set (fst (take_least ?c nmin zs))"
    by (simp add: minmax_low_eq)
  ultimately show ?thesis by (rule take_least_key_le[where key = fst, rotated])
qed

lemma minmax_high_ge:
  assumes "h \<in> set (minmax_high nmin nmax zs)"
    and "r \<in> set (minmax_low nmin nmax zs) \<union> set (minmax_kept nmin nmax zs)"
  shows "fst r \<le> fst h"
proof (cases "r \<in> set (minmax_low nmin nmax zs)")
  case True
  moreover from assms(1) have "h \<in> set (minmax_kept nmin nmax zs) \<union> set (minmax_high nmin nmax zs)"
    by simp
  ultimately show ?thesis by (rule minmax_low_le)
next
  case False
  let ?c = "\<lambda>(a::sample) (b::sample). fst a < fst b"
  let ?d = "\<lambda>(a::sample) (b::sample). - fst a < - fst b"
  let ?rest = "snd (take_least ?c nmin zs)"
  from False assms(2) have "r \<in> set (snd (take_least ?d nmax ?rest))"
    by (simp add: minmax_kept_eq)
  moreover from assms(1) have "h \<in> set (fst (take_least ?d nmax ?rest))"
    by (simp add: minmax_high_eq)
  ultimately have "- fst h \<le> - fst r"
    by (rule take_least_key_le[where key = "\<lambda>a. - fst a", rotated])
  then show ?thesis by simp
qed

lemma minmax_values_mset:
  "mset (map fst (minmax_low nmin nmax zs))
     + mset (map fst (minmax_kept nmin nmax zs) @ map fst (minmax_high nmin nmax zs))
   = mset (map fst zs)"
proof -
  have "image_mset fst (mset (minmax_low nmin nmax zs) + mset (minmax_kept nmin nmax zs)
          + mset (minmax_high nmin nmax zs)) = image_mset fst (mset zs)"
    by (simp only: minmax_mset)
  then show ?thesis by (simp add: add.assoc)
qed

lemma minmax_low_values:
  assumes "nmin \<le> length zs"
  shows "mset (map fst (minmax_low nmin nmax zs)) = mset (take nmin (sort (map fst zs)))"
proof -
  let ?ls = "map fst (minmax_low nmin nmax zs)"
  let ?rs = "map fst (minmax_kept nmin nmax zs) @ map fst (minmax_high nmin nmax zs)"
  have "mset ?ls + mset ?rs = mset (map fst zs)" by (rule minmax_values_mset)
  moreover have "\<forall>l \<in> set ?ls. \<forall>r \<in> set ?rs. l \<le> r"
    using minmax_low_le[of _ nmin nmax zs] by auto
  ultimately have "mset ?ls = mset (take (length ?ls) (sort (map fst zs)))"
    by (rule smallest_mset)
  moreover have "length ?ls = nmin" using assms by (simp add: minmax_lengths)
  ultimately show ?thesis by simp
qed

lemma minmax_high_values:
  assumes "nmin + nmax \<le> length zs"
  shows "mset (map fst (minmax_high nmin nmax zs))
     = mset (drop (length zs - nmax) (sort (map fst zs)))"
proof -
  let ?hs = "map fst (minmax_high nmin nmax zs)"
  let ?rs = "map fst (minmax_low nmin nmax zs) @ map fst (minmax_kept nmin nmax zs)"
  have "mset ?rs + mset ?hs = mset (map fst zs)"
    using minmax_values_mset[of nmin nmax zs] by (simp add: add.assoc)
  moreover have "\<forall>r \<in> set ?rs. \<forall>h \<in> set ?hs. r \<le> h"
    using minmax_high_ge[of _ nmin nmax zs] by auto
  ultimately have "mset ?hs = mset (drop (length (map fst zs) - length ?hs) (sort (map fst zs)))"
    by (rule largest_mset)
  moreover have "length ?hs = nmax" using assms by (simp add: minmax_lengths)
  ultimately show ?thesis by simp
qed

lemma sort_values_cong:
  assumes "mset zs2 = mset (zs :: sample list)"
  shows "sort (map fst zs2) = sort (map fst zs)" and "length zs2 = length zs"
proof -
  from assms have "image_mset fst (mset zs2) = image_mset fst (mset zs)" by simp
  then have "mset (map fst zs2) = mset (map fst zs)" by simp
  then show "sort (map fst zs2) = sort (map fst zs)"
    by (metis properties_for_sort sorted_sort mset_sort)
  from assms show "length zs2 = length zs" by (metis size_mset)
qed

text \<open>The scenario of the specification, with weights that tell the samples apart.\<close>

lemma ex_minmax_parts:
  "minmax_low 1 1 [(5,1),(3,2),(9,3),(1,4),(7,5)] = [(1,4)]"
  "minmax_kept 1 1 [(5,1),(3,2),(9,3),(1,4),(7,5)] = [(5,1),(3,2),(7,5)]"
  "minmax_high 1 1 [(5,1),(3,2),(9,3),(1,4),(7,5)] = [(9,3)]"
  by (simp_all add: minmax_low_eq minmax_kept_eq minmax_high_eq Let_def)

lemma mean_central_537: "mean_central [5, 3, 7] ws = (5, 4)"
  by (simp add: mean_central_def Let_def power2_eq_square)

lemma ex_minmax:
  "RejectMinMax_combine mean_central 1 1 [(5,1),(3,2),(9,3),(1,4),(7,5)] =
     ([(1,4),(5,1),(3,2),(7,5),(9,3)], \<lparr>center = 5, dispersion = 4, countUsed = 3\<rparr>)"
  by (simp only: RejectMinMax_combine_eq ex_minmax_parts) (simp add: mean_central_537)

subsection \<open>Claims about RejectMinMax, RejectNone and the adaptor\<close>

text \<open>
  C5. For every sample set with \<open>nmin + nmax < |S|\<close>, \<open>RejectMinMax::combine\<close>
  writes the count \<open>|S| - nmin - nmax\<close>; the values it leaves out are, as
  multisets, the \<open>nmin\<close> smallest and the \<open>nmax\<close> largest values of the set,
  whatever the order of the input; what is left out and what is kept make up
  the input; and the center and dispersion are the estimate over the kept
  samples.
\<close>

theorem minmax_order_statistics:
  assumes "nmin + nmax < length zs"
  shows "RejectMinMax_combine mc nmin nmax zs =
       (minmax_low nmin nmax zs @ minmax_kept nmin nmax zs @ minmax_high nmin nmax zs,
        \<lparr>center = fst (mc (map fst (minmax_kept nmin nmax zs)) (map snd (minmax_kept nmin nmax zs))),
         dispersion = snd (mc (map fst (minmax_kept nmin nmax zs)) (map snd (minmax_kept nmin nmax zs))),
         countUsed = real (length zs - nmin - nmax)\<rparr>)
     \<and> mset (minmax_low nmin nmax zs) + mset (minmax_kept nmin nmax zs)
         + mset (minmax_high nmin nmax zs) = mset zs
     \<and> mset (map fst (minmax_low nmin nmax zs)) = mset (take nmin (sort (map fst zs)))
     \<and> mset (map fst (minmax_high nmin nmax zs))
         = mset (drop (length zs - nmax) (sort (map fst zs)))
     \<and> (\<forall>zs2. mset zs2 = mset zs \<longrightarrow>
           mset (map fst (minmax_low nmin nmax zs2)) = mset (map fst (minmax_low nmin nmax zs))
         \<and> mset (map fst (minmax_high nmin nmax zs2)) = mset (map fst (minmax_high nmin nmax zs)))"
proof -
  from assms have lo: "nmin \<le> length zs" and hi: "nmin + nmax \<le> length zs" by simp_all
  have c: "RejectMinMax_combine mc nmin nmax zs =
       (minmax_low nmin nmax zs @ minmax_kept nmin nmax zs @ minmax_high nmin nmax zs,
        \<lparr>center = fst (mc (map fst (minmax_kept nmin nmax zs)) (map snd (minmax_kept nmin nmax zs))),
         dispersion = snd (mc (map fst (minmax_kept nmin nmax zs)) (map snd (minmax_kept nmin nmax zs))),
         countUsed = real (length zs - nmin - nmax)\<rparr>)"
    by (simp only: RejectMinMax_combine_eq minmax_lengths)
  have l: "mset (map fst (minmax_low nmin nmax zs)) = mset (take nmin (sort (map fst zs)))"
    using lo by (rule minmax_low_values)
  have h: "mset (map fst (minmax_high nmin nmax zs))
      = mset (drop (length zs - nmax) (sort (map fst zs)))"
    using hi by (rule minmax_high_values)
  have o: "mset (map fst (minmax_low nmin nmax zs2)) = mset (map fst (minmax_low nmin nmax zs))
      \<and> mset (map fst (minmax_high nmin nmax zs2)) = mset (map fst (minmax_high nmin nmax zs))"
    if eq: "mset zs2 = mset zs" for zs2
  proof -
    from sort_values_cong[OF eq]
    have s: "sort (map fst zs2) = sort (map fst zs)" and n: "length zs2 = length zs" by simp_all
    from lo n have "nmin \<le> length zs2" by simp
    then have "mset (map fst (minmax_low nmin nmax zs2)) = mset (take nmin (sort (map fst zs2)))"
      by (rule minmax_low_values)
    moreover from hi n have "nmin + nmax \<le> length zs2" by simp
    then have "mset (map fst (minmax_high nmin nmax zs2))
        = mset (drop (length zs2 - nmax) (sort (map fst zs2)))"
      by (rule minmax_high_values)
    ultimately show ?thesis by (simp only: l h s n)
  qed
  from c minmax_mset[of nmin nmax zs] l h o show ?thesis by blast
qed

theorem minmax_order_statistics_witness:
  "1 + 1 < length [(5::real,1::real),(3,2),(9,3),(1,4),(7,5)]
   \<and> RejectMinMax_combine mean_central 1 1 [(5,1),(3,2),(9,3),(1,4),(7,5)] =
       ([(1,4),(5,1),(3,2),(7,5),(9,3)], \<lparr>center = 5, dispersion = 4, countUsed = 3\<rparr>)
   \<and> mset (map fst (minmax_low 1 1 [(5,1),(3,2),(9,3),(1,4),(7,5)])) = {#1#}
   \<and> mset (map fst (minmax_high 1 1 [(5,1),(3,2),(9,3),(1,4),(7,5)])) = {#9#}
   \<and> mset (map fst (minmax_low 1 1 [(1,4),(3,2),(5,1),(7,5),(9,3)])) = {#1#}"
proof -
  have h: "1 + 1 < length [(5::real,1::real),(3,2),(9,3),(1,4),(7,5)]" by simp
  have p: "mset [(1::real,4::real),(3,2),(5,1),(7,5),(9,3)] = mset [(5,1),(3,2),(9,3),(1,4),(7,5)]"
    by simp
  from minmax_order_statistics[OF h, of mean_central] p
  have "RejectMinMax_combine mean_central 1 1 [(5,1),(3,2),(9,3),(1,4),(7,5)] =
       (minmax_low 1 1 [(5,1),(3,2),(9,3),(1,4),(7,5)] @ minmax_kept 1 1 [(5,1),(3,2),(9,3),(1,4),(7,5)]
          @ minmax_high 1 1 [(5,1),(3,2),(9,3),(1,4),(7,5)],
        \<lparr>center = fst (mean_central (map fst (minmax_kept 1 1 [(5,1),(3,2),(9,3),(1,4),(7,5)]))
                   (map snd (minmax_kept 1 1 [(5,1),(3,2),(9,3),(1,4),(7,5)]))),
         dispersion = snd (mean_central (map fst (minmax_kept 1 1 [(5,1),(3,2),(9,3),(1,4),(7,5)]))
                   (map snd (minmax_kept 1 1 [(5,1),(3,2),(9,3),(1,4),(7,5)]))),
         countUsed = real (length [(5::real,1::real),(3,2),(9,3),(1,4),(7,5)] - 1 - 1)\<rparr>)"
    and "mset (map fst (minmax_low 1 1 [(1,4),(3,2),(5,1),(7,5),(9,3)]))
       = mset (map fst (minmax_low 1 1 [(5,1),(3,2),(9,3),(1,4),(7,5)]))"
    by blast+
  then show ?thesis
    by (simp only: ex_minmax_parts) (simp add: mean_central_537)
qed

text \<open>
  C4. The claim: the caller's sequences are the same, element for element,
  when \<open>combine\<close> returns. \<open>RejectMinMax\<close> and \<open>RejectSigmaClip\<close> work in place
  through zip iterators over the caller's sequences, and \<open>RejectMinMax\<close> hands
  the estimator one contiguous range of them, so the samples have to move: on
  the scenario of the specification the sample with value 1 is in front on
  return.
\<close>

theorem minmax_reorders_counterexample:
  "fst (RejectMinMax_combine mean_central 1 1 [(5,1),(3,2),(9,3),(1,4),(7,5)])
     \<noteq> [(5,1),(3,2),(9,3),(1,4),(7,5)]"
  by (simp only: ex_minmax fst_conv) simp

text \<open>
  C4, amended. \<open>RejectNone\<close> leaves the sequences as they are. \<open>RejectMinMax\<close>
  and, when it returns, \<open>RejectSigmaClip\<close> leave the same multiset of
  (value, weight) pairs in them: samples are moved, never changed, and a value
  stays with its weight.
\<close>

theorem combine_keeps_samples:
  "fst (RejectNone_combine mc zs) = zs
   \<and> mset (fst (RejectMinMax_combine mc nmin nmax zs)) = mset zs
   \<and> (RejectSigmaClip_combine mc lo hi zs = Some (zs', res) \<longrightarrow> mset zs' = mset zs)"
proof -
  have "fst (RejectNone_combine mc zs) = zs"
    by (simp add: RejectNone_combine_def Let_def)
  moreover have "mset (fst (RejectMinMax_combine mc nmin nmax zs)) = mset zs"
    using minmax_mset[of nmin nmax zs] by (simp add: RejectMinMax_combine_eq add.assoc)
  moreover have "mset zs' = mset zs" if "RejectSigmaClip_combine mc lo hi zs = Some (zs', res)"
  proof -
    from run_of_combine[OF that] obtain st where
      r: "RejectSigmaClip_run mc lo hi zs = Some st" and z: "zs' = seqs st" by blast
    from run_Some_iter[OF r] obtain j where "st = clip_iter mc lo hi zs (Suc j)" by blast
    with z show ?thesis by (simp only: mset_clip_iter)
  qed
  ultimately show ?thesis by blast
qed

theorem combine_keeps_samples_witness:
  "RejectSigmaClip_combine mean_central (- 2) 2 [(1,1),(3,1),(5,1)] =
       Some ([(1,1),(3,1),(5,1)], \<lparr>center = 3, dispersion = 2, countUsed = 3\<rparr>)
   \<and> mset [(1::real,1::real),(3,1),(5,1)] = mset [(1,1),(3,1),(5,1)]
   \<and> mset (fst (RejectMinMax_combine mean_central 1 1 [(5,1),(3,2),(9,3),(1,4),(7,5)]))
       = mset [(5,1),(3,2),(9,3),(1,4),(7,5)]"
proof -
  have c: "RejectSigmaClip_combine mean_central (- 2) 2 [(1,1),(3,1),(5,1)] =
       Some ([(1,1),(3,1),(5,1)], \<lparr>center = 3, dispersion = 2, countUsed = 3\<rparr>)"
    by (simp add: combine_of_run[OF ex_returns])
  from combine_keeps_samples[of mean_central "[(5,1),(3,2),(9,3),(1,4),(7,5)]" 1 1 "- 2" 2
      "[(1,1),(3,1),(5,1)]" "\<lparr>center = 3, dispersion = 2, countUsed = 3\<rparr>"] c
  show ?thesis by simp
qed

text \<open>
  C6. \<open>RejectNone::combine\<close> writes the pair that the functor returns on the
  whole, unfiltered set into the center and dispersion slots and the number of
  samples into the count slot, also on the empty set, and leaves the sequences
  as they are.
\<close>

theorem reject_none_is_estimate:
  "RejectNone_combine mc zs =
     (zs, \<lparr>center = fst (mc (map fst zs) (map snd zs)),
           dispersion = snd (mc (map fst zs) (map snd zs)),
           countUsed = real (length zs)\<rparr>)
   \<and> RejectNone_combine mc [] =
     ([], \<lparr>center = fst (mc [] []), dispersion = snd (mc [] []), countUsed = 0\<rparr>)"
  by (simp add: RejectNone_combine_def m_central_on_def Let_def)

text \<open>
  C9. The adaptor adds nothing: its \<open>combine\<close> gives what the wrapped
  strategy's \<open>combine\<close> gives on the same arguments, for any wrapped object and
  so for each of the three strategies.
\<close>

theorem adaptor_forwards:
  "RejectMethodAdaptor_combine m_rn zs = m_rn zs
   \<and> RejectMethodAdaptor_combine (RejectNone_combine mc) zs = RejectNone_combine mc zs
   \<and> RejectMethodAdaptor_combine (RejectMinMax_combine mc nmin nmax) zs
       = RejectMinMax_combine mc nmin nmax zs
   \<and> RejectMethodAdaptor_combine (RejectSigmaClip_combine mc lo hi) zs
       = RejectSigmaClip_combine mc lo hi zs"
  by (simp add: RejectMethodAdaptor_combine_def)

text \<open>
  C7. \<open>RejectSigmaClip::combine\<close> writes a standard deviation: when it returns,
  the final state comes from a last pass through the body, and the dispersion
  slot is the square root of the second component of the estimate made in that
  pass. \<open>RejectNone\<close> and \<open>RejectMinMax\<close> write the second component as the
  functor returns it.
\<close>

theorem dispersion_units:
  "(RejectSigmaClip_run mc lo hi zs = Some st \<longrightarrow>
      (\<exists>k. st = clip_body mc lo hi (clip_iter mc lo hi zs k)
         \<and> map_option (\<lambda>r. dispersion (snd r)) (RejectSigmaClip_combine mc lo hi zs)
            = Some (sqrt (snd (m_central_on mc (seqs (clip_iter mc lo hi zs k)) 0
                                 (c_size (clip_iter mc lo hi zs k)))))))
   \<and> dispersion (snd (RejectNone_combine mc zs)) = snd (mc (map fst zs) (map snd zs))
   \<and> dispersion (snd (RejectMinMax_combine mc nmin nmax zs))
       = snd (mc (map fst (minmax_kept nmin nmax zs)) (map snd (minmax_kept nmin nmax zs)))"
proof -
  have "\<exists>k. st = clip_body mc lo hi (clip_iter mc lo hi zs k)
         \<and> map_option (\<lambda>r. dispersion (snd r)) (RejectSigmaClip_combine mc lo hi zs)
            = Some (sqrt (snd (m_central_on mc (seqs (clip_iter mc lo hi zs k)) 0
                                 (c_size (clip_iter mc lo hi zs k)))))"
    if r: "RejectSigmaClip_run mc lo hi zs = Some st"
  proof -
    from run_Some_iter[OF r] obtain j where st: "st = clip_iter mc lo hi zs (Suc j)" by blast
    then have b: "st = clip_body mc lo hi (clip_iter mc lo hi zs j)" by (simp only: clip_iter_Suc)
    have "c_std st = sqrt (snd (m_central_on mc (seqs (clip_iter mc lo hi zs j)) 0
                                 (c_size (clip_iter mc lo hi zs j))))"
      by (simp only: b clip_body_sel)
    with combine_of_run[OF r] b show ?thesis by auto
  qed
  moreover have "dispersion (snd (RejectNone_combine mc zs)) = snd (mc (map fst zs) (map snd zs))"
    by (simp add: RejectNone_combine_def m_central_on_def Let_def)
  moreover have "dispersion (snd (RejectMinMax_combine mc nmin nmax zs))
       = snd (mc (map fst (minmax_kept nmin nmax zs)) (map snd (minmax_kept nmin nmax zs)))"
    by (simp add: RejectMinMax_combine_eq)
  ultimately show ?thesis by blast
qed

theorem dispersion_units_witness:
  "RejectSigmaClip_run mean_central (- 2) 2 [(1,1),(3,1),(5,1)] =
       Some \<lparr>seqs = [(1,1),(3,1),(5,1)], ned = 3, delta = 0, c_mean = 3, c_std = 2, c_size = 3\<rparr>
   \<and> (\<exists>k. \<lparr>seqs = [(1,1),(3,1),(5,1)], ned = 3, delta = 0, c_mean = 3, c_std = 2, c_size = 3\<rparr>
           = clip_body mean_central (- 2) 2 (clip_iter mean_central (- 2) 2 [(1,1),(3,1),(5,1)] k)
         \<and> Some 2 = Some (sqrt (snd (m_central_on mean_central
                (seqs (clip_iter mean_central (- 2) 2 [(1,1),(3,1),(5,1)] k)) 0
                (c_size (clip_iter mean_central (- 2) 2 [(1,1),(3,1),(5,1)] k))))))
   \<and> dispersion (snd (RejectNone_combine mean_central [(1,1),(3,1),(5,1)])) = 4"
proof -
  let ?zs = "[(1,1),(3,1),(5,1)] :: sample list"
  let ?st = "\<lparr>seqs = ?zs, ned = 3, delta = 0, c_mean = 3, c_std = 2, c_size = 3\<rparr>"
  have d: "map_option (\<lambda>r. dispersion (snd r)) (RejectSigmaClip_combine mean_central (- 2) 2 ?zs)
      = Some 2"
    by (simp add: combine_of_run[OF ex_returns])
  from dispersion_units[where mc = mean_central and lo = "- 2" and hi = 2 and zs = ?zs
      and nmin = 0 and nmax = 0 and st = ?st] ex_returns
  have e: "\<exists>k. ?st = clip_body mean_central (- 2) 2 (clip_iter mean_central (- 2) 2 ?zs k)
         \<and> map_option (\<lambda>r. dispersion (snd r)) (RejectSigmaClip_combine mean_central (- 2) 2 ?zs)
            = Some (sqrt (snd (m_central_on mean_central
                (seqs (clip_iter mean_central (- 2) 2 ?zs k)) 0
                (c_size (clip_iter mean_central (- 2) 2 ?zs k)))))"
    and n: "dispersion (snd (RejectNone_combine mean_central ?zs))
      = snd (mean_central (map fst ?zs) (map snd ?zs))"
    by blast+
  from n have "dispersion (snd (RejectNone_combine mean_central ?zs)) = 4"
    by (simp add: mean_central_135)
  with e ex_returns show ?thesis
    by (simp only: d)
qed

end
